theory Spec2Isabelle
  imports Complex_Main "HOL-Library.Monad_Syntax"
begin

section \<open>SpinPAK contour generation: a shallow embedding of \<open>spinpak_interactive_app.py\<close>\<close>

text \<open>
  The Python works on numpy arrays of IEEE doubles. Here a double that is finite is a
  \<^typ>\<open>real\<close>: rounding is not modelled, so every statement below is about the exact
  arithmetic the code approximates. What numpy does where exact arithmetic is undefined
  (a division by zero yields \<open>inf\<close> or \<open>nan\<close> and a warning, never an exception) is
  modelled by the value \<open>NonFinite\<close> of the type \<open>'a np\<close>.
\<close>

subsection \<open>Data model\<close>

type_synonym point = "real \<times> real"
type_synonym curve = "point list"

text \<open>A 2 by 2 matrix, as numpy holds it: the pair of its rows.\<close>

type_synonym matrix = "(real \<times> real) \<times> (real \<times> real)"

text \<open>
  The exceptions of the model. \<open>ValueError\<close> is numpy's, for a reduction over an empty
  array; \<open>ZeroDivisionError\<close> is Python's, for a float divided by the integer zero.
  \<open>DomainError\<close> is the error kind the specification names; no path of the source
  raises it.
\<close>

datatype error = DomainError | ValueError | ZeroDivisionError

text \<open>
  A numpy value: \<open>Finite v\<close>, or \<open>NonFinite\<close> when a component of it is \<open>inf\<close> or
  \<open>nan\<close>. In the code modelled here a non-finite operand of \<open>+\<close>, \<open>-\<close>, \<open>*\<close>, \<open>sin\<close>,
  \<open>arccos\<close> or \<open>norm\<close> gives a non-finite result, which the bind of the option monad
  expresses.
\<close>

type_synonym 'a np = "'a option"

abbreviation Finite :: "'a \<Rightarrow> 'a np" where
  "Finite \<equiv> Some"

abbreviation NonFinite :: "'a np" where
  "NonFinite \<equiv> None"

subsection \<open>Small vector helpers (numpy's elementwise operations on a row)\<close>

fun padd :: "point \<Rightarrow> point \<Rightarrow> point" where
  "padd (x, y) (x', y') = (x + x', y + y')"

fun psub :: "point \<Rightarrow> point \<Rightarrow> point" where
  "psub (x, y) (x', y') = (x - x', y - y')"

text \<open>\<open>M @ p\<close> for a matrix and a vector.\<close>

fun matvec :: "matrix \<Rightarrow> point \<Rightarrow> point" where
  "matvec ((a, b), (c, d)) (x, y) = (a * x + b * y, c * x + d * y)"

text \<open>\<open>np.radians\<close>.\<close>

definition radians :: "real \<Rightarrow> real" where
  "radians angle_deg = angle_deg * pi / 180"

subsection \<open>\<open>reflect\<close> and \<open>rotate\<close>\<close>

text \<open>
  The body of the \<open>for p in points\<close> loop of \<open>reflect\<close>, with the list being
  appended to as the accumulator.
\<close>

fun reflect_loop :: "matrix \<Rightarrow> matrix \<Rightarrow> curve \<Rightarrow> curve \<Rightarrow> curve" where
  "reflect_loop rotation_matrix rotation_matrix_inv [] reflected_points = reflected_points"
| "reflect_loop rotation_matrix rotation_matrix_inv (p # points) reflected_points =
     (let p_rotated = matvec rotation_matrix p;
          p_reflected_rotated = (fst p_rotated, - snd p_rotated);
          p_reflected = matvec rotation_matrix_inv p_reflected_rotated
      in reflect_loop rotation_matrix rotation_matrix_inv points
           (reflected_points @ [p_reflected]))"

definition reflect :: "curve \<Rightarrow> real \<Rightarrow> curve" where
  "reflect points angle_deg =
     (let theta = radians angle_deg;
          cos_theta = cos (- theta);
          sin_theta = sin (- theta);
          rotation_matrix = ((cos_theta, - sin_theta), (sin_theta, cos_theta));
          cos_theta_inv = cos theta;
          sin_theta_inv = sin theta;
          rotation_matrix_inv =
            ((cos_theta_inv, - sin_theta_inv), (sin_theta_inv, cos_theta_inv))
      in reflect_loop rotation_matrix rotation_matrix_inv points [])"

text \<open>
  \<open>(points - center) @ R.T + center\<close>: row \<open>p\<close> of the array becomes
  \<open>(p - center) @ R.T + center\<close>, and a row vector times \<open>R.T\<close> is \<open>R\<close> times the
  vector.
\<close>

definition rotate :: "curve \<Rightarrow> real \<Rightarrow> point \<Rightarrow> curve" where
  "rotate points angle_deg center =
     (let angle_rad = radians angle_deg;
          R = ((cos angle_rad, - sin angle_rad), (sin angle_rad, cos angle_rad))
      in map (\<lambda>p. padd (matvec R (psub p center)) center) points)"

subsection \<open>Replication of the emblem's base paths (end of \<open>generate_revolution_shape\<close>)\<close>

text \<open>
  The nested loops \<open>for angle in [0, 120, 240]: for path in base_paths:\<close> with
  \<open>paths_to_plot.append\<close>; the angle list and the base paths are parameters here, and
  \<open>paths_to_plot\<close> instantiates them as the source does.
\<close>

fun replicate_inner :: "curve list \<Rightarrow> real \<Rightarrow> curve list \<Rightarrow> curve list" where
  "replicate_inner [] angle paths_to_plot = paths_to_plot"
| "replicate_inner (path # base_paths) angle paths_to_plot =
     (let rotated_path = rotate path angle (0, 0)
      in replicate_inner base_paths angle (paths_to_plot @ [rotated_path]))"

fun replicate_outer :: "real list \<Rightarrow> curve list \<Rightarrow> curve list \<Rightarrow> curve list" where
  "replicate_outer [] base_paths paths_to_plot = paths_to_plot"
| "replicate_outer (angle # angles) base_paths paths_to_plot =
     replicate_outer angles base_paths (replicate_inner base_paths angle paths_to_plot)"

definition replicate_paths :: "curve list \<Rightarrow> real list \<Rightarrow> curve list" where
  "replicate_paths base_paths angles = replicate_outer angles base_paths []"

definition paths_to_plot :: "curve \<Rightarrow> curve \<Rightarrow> curve \<Rightarrow> curve list" where
  "paths_to_plot full_contour finale1 full_contour_reflected =
     (let base_paths = [full_contour, finale1, full_contour_reflected]
      in replicate_paths base_paths [0, 120, 240])"

subsection \<open>The airfoil overlay (\<open>plot_combined\<close> and \<open>export_to_svg\<close>)\<close>

text \<open>
  Both methods branch on \<open>self.n_revolutions == 1\<close>. \<open>n_revolutions\<close> is a Python int;
  \<open>360.0 / 0\<close> raises, and \<open>range\<close> of a negative number is empty.
\<close>

definition overlay_airfoils :: "int \<Rightarrow> curve \<Rightarrow> error + curve list" where
  "overlay_airfoils n_revolutions airfoil_points =
     (if n_revolutions = 1 then Inr [airfoil_points]
      else if n_revolutions = 0 then Inl ZeroDivisionError
      else
        (let angle_step = 360 / real_of_int n_revolutions
         in Inr (map (\<lambda>i. rotate airfoil_points (real i * angle_step) (0, 0))
                  [0..<nat n_revolutions])))"

text \<open>What \<open>export_to_svg\<close> appends to \<open>all_points\<close> for the airfoil: the curves, flattened.\<close>

definition overlay_points :: "int \<Rightarrow> curve \<Rightarrow> error + curve" where
  "overlay_points n_revolutions airfoil_points =
     (case overlay_airfoils n_revolutions airfoil_points of
        Inl e \<Rightarrow> Inl e
      | Inr curves \<Rightarrow> Inr (concat curves))"

subsection \<open>The bounds of the exported document (\<open>export_to_svg\<close>)\<close>

text \<open>
  \<open>ndarray.min\<close> and \<open>ndarray.max\<close> along an axis: a left-to-right reduction, and a
  \<open>ValueError\<close> on an empty array.
\<close>

fun amin :: "real list \<Rightarrow> error + real" where
  "amin [] = Inl ValueError"
| "amin (x # xs) = Inr (fold min xs x)"

fun amax :: "real list \<Rightarrow> error + real" where
  "amax [] = Inl ValueError"
| "amax (x # xs) = Inr (fold max xs x)"

record viewbox =
  vb_x :: real
  vb_y :: real
  vb_width :: real
  vb_height :: real

record svg_document =
  svg_width :: real
  svg_height :: real
  view_box :: viewbox

definition export_bounds :: "curve \<Rightarrow> error + svg_document" where
  "export_bounds all_points =
     (case (amin (map fst all_points), amin (map snd all_points)) of
        (Inr min_x, Inr min_y) \<Rightarrow>
          (case (amax (map fst all_points), amax (map snd all_points)) of
             (Inr max_x, Inr max_y) \<Rightarrow>
               (let padding = 0.2;
                    width = max_x - min_x + 2 * padding;
                    height = max_y - min_y + 2 * padding;
                    scale = 300
                in Inr \<lparr>svg_width = width * scale, svg_height = height * scale,
                         view_box = \<lparr>vb_x = min_x - padding, vb_y = min_y - padding,
                                      vb_width = width, vb_height = height\<rparr>\<rparr>)
           | (Inl e, _) \<Rightarrow> Inl e
           | (_, Inl e) \<Rightarrow> Inl e)
      | (Inl e, _) \<Rightarrow> Inl e
      | (_, Inl e) \<Rightarrow> Inl e)"

subsection \<open>More numpy helpers\<close>

fun pscale :: "real \<Rightarrow> point \<Rightarrow> point" where
  "pscale k (x, y) = (k * x, k * y)"

text \<open>\<open>np.dot\<close> of two 2-vectors and \<open>np.linalg.norm\<close> of one.\<close>

fun dot :: "point \<Rightarrow> point \<Rightarrow> real" where
  "dot (x, y) (x', y') = x * x' + y * y'"

fun norm2 :: "point \<Rightarrow> real" where
  "norm2 (x, y) = sqrt (x\<^sup>2 + y\<^sup>2)"

text \<open>\<open>np.clip(x, lo, hi)\<close> is \<open>minimum(maximum(x, lo), hi)\<close>.\<close>

definition clip :: "real \<Rightarrow> real \<Rightarrow> real \<Rightarrow> real" where
  "clip x lo hi = min (max x lo) hi"

text \<open>
  Division of floats in numpy: a zero divisor gives \<open>inf\<close> or \<open>nan\<close> (and a
  \<open>RuntimeWarning\<close>), not an exception.
\<close>

definition np_div :: "real \<Rightarrow> real \<Rightarrow> real np" where
  "np_div x y = (if y = 0 then NonFinite else Finite (x / y))"

definition np_vdiv :: "point \<Rightarrow> real \<Rightarrow> point np" where
  "np_vdiv p y = (if y = 0 then NonFinite else Finite (fst p / y, snd p / y))"

text \<open>A real scalar divided by a complex array element.\<close>

definition np_cdiv :: "real \<Rightarrow> complex \<Rightarrow> complex np" where
  "np_cdiv x w = (if w = 0 then NonFinite else Finite (complex_of_real x / w))"

text \<open>
  \<open>np.linspace(start, stop, num)\<close> with its default \<open>endpoint=True\<close>:
  \<open>arange(num) * step + start\<close> with \<open>step = (stop - start) / (num - 1)\<close>, and the last
  sample set to \<open>stop\<close> when there is more than one.
\<close>

definition linspace :: "real \<Rightarrow> real \<Rightarrow> nat \<Rightarrow> real list" where
  "linspace start stop num =
     (let divisor = num - 1;
          delta = stop - start;
          y = map (\<lambda>k. if divisor > 0 then real k * (delta / real divisor) + start
                        else real k * delta + start) [0..<num]
      in if num > 1 then y[num - 1 := stop] else y)"

subsection \<open>\<open>plot_joukowsky\<close>\<close>

text \<open>
  The function returns the pair of arrays \<open>(z.real * scale, z.imag * scale)\<close>. It has no
  \<open>raise\<close>; the result is a sum so that "fails with an error" can be stated of it.
\<close>

definition plot_joukowsky ::
    "real \<Rightarrow> real \<Rightarrow> real \<Rightarrow> real \<Rightarrow> error + (real np list \<times> real np list)" where
  "plot_joukowsky R x_center y_center scale =
     (let n_points = 400;
          theta = linspace 0 (2 * pi) n_points;
          w = map (\<lambda>t. Complex (x_center + R * cos t) (y_center + R * sin t)) theta;
          a = R;
          z = map (\<lambda>w. do { q \<leftarrow> np_cdiv (a\<^sup>2) w; Finite (w + q) }) w
      in Inr (map (\<lambda>z. do { c \<leftarrow> z; Finite (Re c * scale) }) z,
              map (\<lambda>z. do { c \<leftarrow> z; Finite (Im c * scale) }) z))"

subsection \<open>The fitted corners of \<open>generate_revolution_shape\<close>: constants and objectives\<close>

definition r1 :: real where "r1 = 1.0"
definition r2 :: real where "r2 = 1.2"
definition R_corner :: real where "R_corner = 0.05"

definition p1 :: point where "p1 = (- 0.7, sqrt (r1\<^sup>2 - 0.7\<^sup>2))"
definition p2 :: point where "p2 = (- 0.7, sqrt (r2\<^sup>2 - 0.7\<^sup>2))"

definition theta_outer :: "real list" where
  "theta_outer = linspace (pi / 2) (arccos (- 0.7 / r2)) 100"

definition arc1_pts :: curve where
  "arc1_pts = map (\<lambda>t. (r2 * cos t, r2 * sin t)) theta_outer"

text \<open>\<open>seg2_pts = np.array([p2, p1])\<close>, the two ends of a segment.\<close>

definition seg2_pts :: "point \<times> point" where
  "seg2_pts = (p2, p1)"

definition theta_inner :: "real list" where
  "theta_inner = linspace (arccos (- 0.7 / r1)) (arccos (- 0.1 / r1)) 100"

definition arc3_pts :: curve where
  "arc3_pts = map (\<lambda>t. (r1 * cos t, r1 * sin t)) theta_inner"

text \<open>
  \<open>Point(p).distance(LineString([a, b]))\<close> of the shapely library, which is not part of
  the repository: the Euclidean distance from \<open>p\<close> to the closest point of the segment,
  computed by clamping the projection parameter to the segment.
\<close>

definition point_segment_distance :: "point \<Rightarrow> point \<times> point \<Rightarrow> real" where
  "point_segment_distance p seg =
     (let a = fst seg; b = snd seg;
          d = psub b a;
          l2 = dot d d
      in if l2 = 0 then norm2 (psub p a)
         else
           (let t = clip (dot (psub p a) d / l2) 0 1
            in norm2 (psub p (padd a (pscale t d)))))"

text \<open>
  \<open>objective_inner\<close> and \<open>objective_outer\<close>: closures over the constants above. The
  list \<open>dists\<close> is appended to and summed; \<open>np.min\<close> raises on an empty array.
\<close>

definition objective_inner :: "point \<Rightarrow> error + real" where
  "objective_inner center =
     (let dists = [];
          dist_seg = point_segment_distance center seg2_pts;
          dists = dists @ [(dist_seg - R_corner)\<^sup>2]
      in case amin (map (\<lambda>q. norm2 (psub q center)) arc1_pts) of
           Inl e \<Rightarrow> Inl e
         | Inr d_arc \<Rightarrow>
             (let dists = dists @ [(d_arc - R_corner)\<^sup>2];
                  origin_dist = norm2 center;
                  dists = (if origin_dist > r2 - R_corner
                           then dists @ [10 * (origin_dist - (r2 - R_corner))\<^sup>2]
                           else dists)
              in Inr (sum_list dists)))"

definition objective_outer :: "point \<Rightarrow> error + real" where
  "objective_outer center =
     (let dists = [];
          dist_seg = point_segment_distance center seg2_pts;
          dists = dists @ [(dist_seg - R_corner)\<^sup>2]
      in case amin (map (\<lambda>q. norm2 (psub q center)) arc3_pts) of
           Inl e \<Rightarrow> Inl e
         | Inr d_arc \<Rightarrow>
             (let dists = dists @ [(d_arc - R_corner)\<^sup>2];
                  origin_dist = norm2 center;
                  dists = (if origin_dist < r1 + R_corner
                           then dists @ [1000 * (r1 + R_corner - origin_dist)\<^sup>2]
                           else dists)
              in Inr (sum_list dists)))"

text \<open>
  The objective as the specification words it: one squared term per obstacle, and a
  weighted quadratic penalty only when the side constraint is violated.
\<close>

datatype obstacle = Segment "point \<times> point" | SampledArc curve

fun obstacle_distance :: "point \<Rightarrow> obstacle \<Rightarrow> real" where
  "obstacle_distance center (Segment seg) = point_segment_distance center seg"
| "obstacle_distance center (SampledArc samples) =
     Min ((\<lambda>q. norm2 (psub q center)) ` set samples)"

text \<open>
  The side constraint on the distance of the center from the origin, and by how much a
  center violates it (positive exactly when it does).
\<close>

datatype side_constraint = AtMost real | AtLeast real

fun violation :: "side_constraint \<Rightarrow> point \<Rightarrow> real" where
  "violation (AtMost bound) center = norm2 center - bound"
| "violation (AtLeast bound) center = bound - norm2 center"

definition spec_objective ::
    "obstacle list \<Rightarrow> real \<Rightarrow> real \<Rightarrow> side_constraint \<Rightarrow> point \<Rightarrow> real" where
  "spec_objective obstacles targetRadius weight side center =
     (\<Sum>ob\<leftarrow>obstacles. (obstacle_distance center ob - targetRadius)\<^sup>2)
     + (if violation side center > 0 then weight * (violation side center)\<^sup>2 else 0)"

subsection \<open>The rounded joint of \<open>generate_revolution_shape\<close>\<close>

text \<open>
  The closed-form center of the joint between the segments \<open>B A\<close> and \<open>B C\<close>, with the
  points and the radius as parameters (the source computes them just before). Each
  division is numpy's.
\<close>

definition line_joint_center :: "point \<Rightarrow> point \<Rightarrow> point \<Rightarrow> real \<Rightarrow> error + point np" where
  "line_joint_center A B C radius =
     Inr (do {
       u \<leftarrow> np_vdiv (psub A B) (norm2 (psub A B));
       v \<leftarrow> np_vdiv (psub C B) (norm2 (psub C B));
       let theta = arccos (clip (dot u v) (- 1.0) 1.0) / 2;
       let bisector = padd u v;
       bisector \<leftarrow> np_vdiv bisector (norm2 bisector);
       d \<leftarrow> np_div radius (sin theta);
       Finite (padd B (pscale d bisector))
     })"

text \<open>
  The distance from a point to the supporting line of the segment from \<open>q1\<close> to \<open>q2\<close>,
  as the tangency property of the specification needs it.
\<close>

definition cross :: "point \<Rightarrow> point \<Rightarrow> real" where
  "cross p q = fst p * snd q - snd p * fst q"

definition line_distance :: "point \<Rightarrow> point \<Rightarrow> point \<Rightarrow> real" where
  "line_distance p q1 q2 = \<bar>cross (psub q2 q1) (psub p q1)\<bar> / norm2 (psub q2 q1)"

section \<open>Properties\<close>

subsection \<open>Transforms act pointwise\<close>

lemma reflect_loop_eq_map:
  "reflect_loop M Minv points acc =
     acc @ map (\<lambda>p. matvec Minv (fst (matvec M p), - snd (matvec M p))) points"
  by (induction points arbitrary: acc) (simp_all add: Let_def)

lemma reflect_eq_map:
  "reflect points a =
     map (\<lambda>p. matvec ((cos (radians a), - sin (radians a)), (sin (radians a), cos (radians a)))
               (fst (matvec ((cos (- radians a), - sin (- radians a)),
                             (sin (- radians a), cos (- radians a))) p),
                - snd (matvec ((cos (- radians a), - sin (- radians a)),
                               (sin (- radians a), cos (- radians a))) p)))
         points"
  by (simp add: reflect_def Let_def reflect_loop_eq_map)

lemma rotate_eq_map:
  "rotate points a c =
     map (\<lambda>p. padd (matvec ((cos (radians a), - sin (radians a)),
                              (sin (radians a), cos (radians a))) (psub p c)) c) points"
  by (simp add: rotate_def Let_def)

text \<open>
  C10. \<open>rotate\<close> and \<open>reflect\<close> return as many points as they are given, and the point at
  each position of the output is the image of the point at that position of the input
  alone (what the operation returns for that single point): nothing is added, dropped or
  reordered.
\<close>

theorem transforms_pointwise:
  "length (rotate points angle_deg center) = length points
   \<and> length (reflect points angle_deg) = length points
   \<and> rotate points angle_deg center = map (\<lambda>p. hd (rotate [p] angle_deg center)) points
   \<and> reflect points angle_deg = map (\<lambda>p. hd (reflect [p] angle_deg)) points"
  by (simp add: rotate_eq_map reflect_eq_map)

subsection \<open>Reflection, replication, overlay and bounds\<close>

lemma reflect_double_angle:
  "reflect points angle_deg =
     map (\<lambda>p. (cos (2 * radians angle_deg) * fst p + sin (2 * radians angle_deg) * snd p,
                sin (2 * radians angle_deg) * fst p - cos (2 * radians angle_deg) * snd p))
         points"
proof -
  have "matvec ((cos t, - sin t), (sin t, cos t))
          (fst (matvec ((cos (- t), - sin (- t)), (sin (- t), cos (- t))) p),
           - snd (matvec ((cos (- t), - sin (- t)), (sin (- t), cos (- t))) p))
        = (cos (2 * t) * fst p + sin (2 * t) * snd p,
           sin (2 * t) * fst p - cos (2 * t) * snd p)" for t :: real and p :: point
    unfolding cos_double sin_double
    by (cases p) (simp add: power2_eq_square algebra_simps)
  then show ?thesis
    unfolding reflect_eq_map by simp
qed

lemma double_reflection_point:
  fixes C S x y :: real
  assumes "C\<^sup>2 + S\<^sup>2 = 1"
  shows "C * (C * x + S * y) + S * (S * x - C * y) = x"
    and "S * (C * x + S * y) - C * (S * x - C * y) = y"
proof -
  have "C * (C * x + S * y) + S * (S * x - C * y) = (C\<^sup>2 + S\<^sup>2) * x"
    by (simp add: power2_eq_square algebra_simps)
  then show "C * (C * x + S * y) + S * (S * x - C * y) = x"
    using assms by simp
  have "S * (C * x + S * y) - C * (S * x - C * y) = (C\<^sup>2 + S\<^sup>2) * y"
    by (simp add: power2_eq_square algebra_simps)
  then show "S * (C * x + S * y) - C * (S * x - C * y) = y"
    using assms by simp
qed

text \<open>
  C6. Reflecting twice across the same axis returns the original points, for every point
  list and every axis angle. Over the reals the two lists are equal, which gives
  \<open>\<approx>\<close> at every tolerance. \<open>reflect\<close> is the source's: rotate by \<open>-a\<close>, negate the Y
  coordinate, rotate by \<open>+a\<close>.
\<close>

theorem reflect_involution: "reflect (reflect points angle_deg) angle_deg = points"
proof -
  have unit: "(cos (2 * radians angle_deg))\<^sup>2 + (sin (2 * radians angle_deg))\<^sup>2 = 1"
    by (simp add: add.commute)
  show ?thesis
    unfolding reflect_double_angle
    by (simp add: o_def double_reflection_point [OF unit])
qed

lemma replicate_inner_eq:
  "replicate_inner base angle acc = acc @ map (\<lambda>path. rotate path angle (0, 0)) base"
  by (induction base arbitrary: acc) (simp_all add: Let_def)

lemma replicate_outer_eq:
  "replicate_outer angles base acc =
     acc @ concat (map (\<lambda>angle. map (\<lambda>path. rotate path angle (0, 0)) base) angles)"
  by (induction angles arbitrary: acc) (simp_all add: replicate_inner_eq)

lemma nth_concat_uniform:
  "i < length xss \<Longrightarrow> j < n \<Longrightarrow> \<forall>xs \<in> set xss. length xs = n \<Longrightarrow>
   concat xss ! (i * n + j) = xss ! i ! j"
proof (induction xss arbitrary: i)
  case Nil
  then show ?case by simp
next
  case (Cons xs xss)
  show ?case
  proof (cases i)
    case 0
    with Cons.prems show ?thesis by (simp add: nth_append)
  next
    case (Suc k)
    with Cons.prems have "concat xss ! (k * n + j) = xss ! k ! j"
      by (intro Cons.IH) auto
    with Suc Cons.prems show ?thesis by (simp add: nth_append)
  qed
qed

lemma length_concat_uniform:
  "\<forall>xs \<in> set xss. length xs = n \<Longrightarrow> length (concat xss) = length xss * n"
  by (induction xss) simp_all

text \<open>
  C8. The replication of a list of base contours over a list of angles has
  \<open>length angles * length base_paths\<close> entries, ordered angle-major then contour-minor:
  entry \<open>i * length base_paths + j\<close> is \<open>base_paths ! j\<close> rotated by \<open>angles ! i\<close> about
  the origin. The emblem's three base paths over 0, 120 and 240 degrees give the nine
  contours listed, in that order.
\<close>

theorem replication_order:
  "length (replicate_paths base_paths angles) = length angles * length base_paths
   \<and> (\<forall>i j. i < length angles \<and> j < length base_paths \<longrightarrow>
         replicate_paths base_paths angles ! (i * length base_paths + j)
           = rotate (base_paths ! j) (angles ! i) (0, 0))
   \<and> paths_to_plot full_contour finale1 full_contour_reflected =
       [rotate full_contour 0 (0, 0), rotate finale1 0 (0, 0),
        rotate full_contour_reflected 0 (0, 0),
        rotate full_contour 120 (0, 0), rotate finale1 120 (0, 0),
        rotate full_contour_reflected 120 (0, 0),
        rotate full_contour 240 (0, 0), rotate finale1 240 (0, 0),
        rotate full_contour_reflected 240 (0, 0)]
   \<and> length (paths_to_plot full_contour finale1 full_contour_reflected) = 9"
proof -
  let ?xss = "map (\<lambda>angle. map (\<lambda>path. rotate path angle (0, 0)) base_paths) angles"
  have eq: "replicate_paths base_paths angles = concat ?xss"
    by (simp add: replicate_paths_def replicate_outer_eq)
  have uni: "\<forall>xs \<in> set ?xss. length xs = length base_paths"
    by auto
  have len: "length (replicate_paths base_paths angles) = length angles * length base_paths"
    using length_concat_uniform [OF uni] by (simp add: eq)
  have nth: "replicate_paths base_paths angles ! (i * length base_paths + j)
           = rotate (base_paths ! j) (angles ! i) (0, 0)"
    if "i < length angles" "j < length base_paths" for i j
  proof -
    have "concat ?xss ! (i * length base_paths + j) = ?xss ! i ! j"
      using that by (intro nth_concat_uniform uni) simp_all
    with that show ?thesis by (simp add: eq)
  qed
  have nine: "paths_to_plot full_contour finale1 full_contour_reflected =
       [rotate full_contour 0 (0, 0), rotate finale1 0 (0, 0),
        rotate full_contour_reflected 0 (0, 0),
        rotate full_contour 120 (0, 0), rotate finale1 120 (0, 0),
        rotate full_contour_reflected 120 (0, 0),
        rotate full_contour 240 (0, 0), rotate finale1 240 (0, 0),
        rotate full_contour_reflected 240 (0, 0)]"
    by (simp add: paths_to_plot_def replicate_paths_def Let_def)
  from len nth nine show ?thesis by simp
qed

text \<open>The replication at three angles and three one-point contours: entry \<open>1 * 3 + 2\<close>.\<close>

theorem replication_order_witness:
  "replicate_paths [[(1, 0)], [(0, 1)], [(1, 1)]] [0, 120, 240] ! 5
     = rotate [(1, 1)] 120 (0, 0)"
proof -
  have "(1::nat) < length [0, 120, 240 :: real] \<and>
        (2::nat) < length [[(1, 0)], [(0, 1)], [(1, 1 :: real)] :: curve]"
    by simp
  with replication_order [of "[[(1, 0)], [(0, 1)], [(1, 1)]]" "[0, 120, 240]"]
  have "replicate_paths [[(1, 0)], [(0, 1)], [(1, 1)]] [0, 120, 240]
          ! (1 * length [[(1, 0)], [(0, 1)], [(1, 1 :: real)] :: curve] + 2)
        = rotate ([[(1, 0)], [(0, 1)], [(1, 1)]] ! 2) ([0, 120, 240] ! 1) (0, 0)"
    by blast
  then show ?thesis by (simp add: eval_nat_numeral)
qed

text \<open>
  C7. With one revolution the overlay is the base airfoil point array itself: the branch
  \<open>n_revolutions == 1\<close> returns its argument and never calls \<open>rotate\<close>.
\<close>

theorem single_revolution_identity:
  "overlay_airfoils 1 airfoil_points = Inr [airfoil_points]
   \<and> overlay_points 1 airfoil_points = Inr airfoil_points"
  by (simp add: overlay_airfoils_def overlay_points_def)

lemma amin_eq_Min: "xs \<noteq> [] \<Longrightarrow> amin xs = Inr (Min (set xs))"
  by (cases xs) (simp_all add: Min.set_eq_fold [symmetric] del: set_simps)

lemma amax_eq_Max: "xs \<noteq> [] \<Longrightarrow> amax xs = Inr (Max (set xs))"
  by (cases xs) (simp_all add: Max.set_eq_fold [symmetric] del: set_simps)

text \<open>
  C9. For a non-empty point set the export succeeds and its viewBox is the axis-aligned
  bounding box of the points grown by the padding 0.2 on every side; its width and its
  height exceed the extent of the geometry (max - min on the axis) by exactly 0.4.
\<close>

theorem viewbox_padding:
  assumes "all_points \<noteq> []"
  shows "\<exists>doc. export_bounds all_points = Inr doc
     \<and> vb_x (view_box doc) = Min (fst ` set all_points) - 0.2
     \<and> vb_y (view_box doc) = Min (snd ` set all_points) - 0.2
     \<and> vb_x (view_box doc) + vb_width (view_box doc) = Max (fst ` set all_points) + 0.2
     \<and> vb_y (view_box doc) + vb_height (view_box doc) = Max (snd ` set all_points) + 0.2
     \<and> vb_width (view_box doc) - (Max (fst ` set all_points) - Min (fst ` set all_points)) = 0.4
     \<and> vb_height (view_box doc) - (Max (snd ` set all_points) - Min (snd ` set all_points)) = 0.4"
  using assms by (simp add: export_bounds_def amin_eq_Min amax_eq_Max Let_def)

text \<open>The bounds of the two points \<open>(0, 0)\<close> and \<open>(1, 2)\<close>.\<close>

theorem viewbox_padding_witness:
  "\<exists>doc. export_bounds [(0, 0), (1, 2)] = Inr doc
     \<and> vb_width (view_box doc)
         - (Max (fst ` set [(0, 0), (1, 2) :: point]) - Min (fst ` set [(0, 0), (1, 2) :: point]))
         = 0.4
     \<and> vb_height (view_box doc)
         - (Max (snd ` set [(0, 0), (1, 2) :: point]) - Min (snd ` set [(0, 0), (1, 2) :: point]))
         = 0.4"
proof -
  have ne: "[(0, 0), (1, 2)] \<noteq> ([] :: curve)" by simp
  from viewbox_padding [OF ne] show ?thesis by blast
qed

subsection \<open>The airfoil generator\<close>

lemma length_linspace: "length (linspace start stop num) = num"
  by (simp add: linspace_def Let_def)

lemma linspace_nth:
  assumes "1 < num" "k < num"
  shows "linspace start stop num ! k = start + real k * (stop - start) / real (num - 1)"
proof (cases "k = num - 1")
  case True
  with assms show ?thesis by (simp add: linspace_def Let_def)
next
  case False
  with assms show ?thesis by (simp add: linspace_def Let_def)
qed

lemma theta_nth:
  "k < 400 \<Longrightarrow> linspace 0 (2 * pi) 400 ! k = 2 * pi * real k / 399"
  by (simp add: linspace_nth)

lemma theta_eq_map: "linspace 0 (2 * pi) 400 = map (\<lambda>k. 2 * pi * real k / 399) [0..<400]"
  by (rule nth_equalityI) (simp_all add: length_linspace theta_nth)

lemma plot_joukowsky_Inr:
  "plot_joukowsky R xc yc s =
     Inr (map (\<lambda>k. do { c \<leftarrow> do { q \<leftarrow> np_cdiv (R\<^sup>2) (Complex (xc + R * cos (2 * pi * real k / 399)) (yc + R * sin (2 * pi * real k / 399)));
                                  Finite (Complex (xc + R * cos (2 * pi * real k / 399)) (yc + R * sin (2 * pi * real k / 399)) + q) };
                         Finite (Re c * s) }) [0..<400],
          map (\<lambda>k. do { c \<leftarrow> do { q \<leftarrow> np_cdiv (R\<^sup>2) (Complex (xc + R * cos (2 * pi * real k / 399)) (yc + R * sin (2 * pi * real k / 399)));
                                  Finite (Complex (xc + R * cos (2 * pi * real k / 399)) (yc + R * sin (2 * pi * real k / 399)) + q) };
                         Finite (Im c * s) }) [0..<400])"
  by (simp add: plot_joukowsky_def Let_def o_def theta_eq_map)

lemma plot_joukowsky_lengths:
  "\<exists>xs ys. plot_joukowsky R xc yc s = Inr (xs, ys) \<and> length xs = 400 \<and> length ys = 400"
  by (simp add: plot_joukowsky_Inr)


lemma plot_joukowsky_nth_nonzero:
  assumes "plot_joukowsky R xc yc s = Inr (xs, ys)" "k < 400"
    and "w = Complex (xc + R * cos (2 * pi * real k / 399)) (yc + R * sin (2 * pi * real k / 399))"
    and "w \<noteq> 0"
  shows "xs ! k = Finite (s * Re (w + complex_of_real (R\<^sup>2) / w))
       \<and> ys ! k = Finite (s * Im (w + complex_of_real (R\<^sup>2) / w))"
  using assms unfolding plot_joukowsky_Inr
  by (auto simp: np_cdiv_def mult.commute)

lemma circle_off_origin:
  assumes "xc\<^sup>2 + yc\<^sup>2 \<noteq> R\<^sup>2"
  shows "Complex (xc + R * cos t) (yc + R * sin t) \<noteq> 0"
proof
  assume "Complex (xc + R * cos t) (yc + R * sin t) = 0"
  then have x: "xc = - (R * cos t)" and y: "yc = - (R * sin t)"
    by (simp_all add: complex_eq_iff)
  have "xc\<^sup>2 + yc\<^sup>2 = R\<^sup>2 * (cos t)\<^sup>2 + R\<^sup>2 * (sin t)\<^sup>2"
    unfolding x y by (simp add: power_mult_distrib)
  also have "\<dots> = R\<^sup>2 * ((cos t)\<^sup>2 + (sin t)\<^sup>2)"
    by (simp only: distrib_left)
  also have "\<dots> = R\<^sup>2"
    by simp
  finally show False
    using assms by simp
qed

lemma default_off_origin: "(- 0.1 :: real)\<^sup>2 + 0.23\<^sup>2 \<noteq> 0.85\<^sup>2"
  by (simp add: power2_eq_square)

lemma first_sample_point:
  "Complex (xc + R * cos (2 * pi * real (0::nat) / 399)) (yc + R * sin (2 * pi * real (0::nat) / 399))
     = Complex (xc + R) yc"
  by simp

lemma last_sample_point:
  "Complex (xc + R * cos (2 * pi * real (399::nat) / 399)) (yc + R * sin (2 * pi * real (399::nat) / 399))
     = Complex (xc + R) yc"
  by simp

lemma first_last_coincide:
  assumes p: "plot_joukowsky R xc yc s = Inr (xs, ys)"
    and nz: "Complex (xc + R) yc \<noteq> 0"
  shows "\<exists>x0 y0. xs ! 0 = Finite x0 \<and> ys ! 0 = Finite y0
           \<and> xs ! 399 = Finite x0 \<and> ys ! 399 = Finite y0"
proof -
  have k0: "(0::nat) < 400" and k399: "(399::nat) < 400"
    by simp_all
  note a = plot_joukowsky_nth_nonzero [OF p k0 first_sample_point [symmetric] nz]
  note b = plot_joukowsky_nth_nonzero [OF p k399 last_sample_point [symmetric] nz]
  from a b show ?thesis by blast
qed

lemma default_airfoil_closed:
  "\<exists>xs ys. plot_joukowsky 0.85 (- 0.1) 0.23 1.0 = Inr (xs, ys)
          \<and> length xs = 400 \<and> length ys = 400
          \<and> (\<forall>k<400. xs ! k \<noteq> NonFinite \<and> ys ! k \<noteq> NonFinite)
          \<and> (\<exists>x0 y0 x399 y399.
                xs ! 0 = Finite x0 \<and> ys ! 0 = Finite y0
                \<and> xs ! 399 = Finite x399 \<and> ys ! 399 = Finite y399
                \<and> \<bar>x0 - x399\<bar> \<le> 1 / 10 ^ 9 \<and> \<bar>y0 - y399\<bar> \<le> 1 / 10 ^ 9)"
proof -
  obtain xs ys where p: "plot_joukowsky 0.85 (- 0.1) 0.23 1.0 = Inr (xs, ys)"
    and l: "length xs = 400" "length ys = 400"
    using plot_joukowsky_lengths by blast
  have nz: "Complex (- 0.1 + 0.85 * cos t) (0.23 + 0.85 * sin t) \<noteq> 0" for t
    by (rule circle_off_origin [OF default_off_origin])
  have fin: "\<forall>k<400. xs ! k \<noteq> NonFinite \<and> ys ! k \<noteq> NonFinite"
  proof (intro allI impI)
    fix k :: nat
    assume k: "k < 400"
    from plot_joukowsky_nth_nonzero [OF p k refl nz]
    show "xs ! k \<noteq> NonFinite \<and> ys ! k \<noteq> NonFinite"
      by (simp only: option.distinct not_False_eq_True simp_thms)
  qed
  have "Complex (- 0.1 + 0.85) 0.23 \<noteq> 0"
    by (simp add: complex_eq_iff)
  from first_last_coincide [OF p this]
  obtain x0 y0 where e: "xs ! 0 = Finite x0" "ys ! 0 = Finite y0"
      "xs ! 399 = Finite x0" "ys ! 399 = Finite y0"
    by blast
  have d: "\<bar>x0 - x0\<bar> \<le> 1 / 10 ^ 9" "\<bar>y0 - y0\<bar> \<le> 1 / 10 ^ 9"
    by simp_all
  from e d have "\<exists>x0 y0 x399 y399.
                xs ! 0 = Finite x0 \<and> ys ! 0 = Finite y0
                \<and> xs ! 399 = Finite x399 \<and> ys ! 399 = Finite y399
                \<and> \<bar>x0 - x399\<bar> \<le> 1 / 10 ^ 9 \<and> \<bar>y0 - y399\<bar> \<le> 1 / 10 ^ 9"
    by blast
  with p l fin show ?thesis by blast
qed

lemma airfoil_general:
  assumes off: "\<forall>k<400. Complex (x_center + R * cos (linspace 0 (2 * pi) 400 ! k))
                        (y_center + R * sin (linspace 0 (2 * pi) 400 ! k)) \<noteq> 0"
  shows "\<exists>xs ys. plot_joukowsky R x_center y_center scale = Inr (xs, ys)
           \<and> length xs = 400 \<and> length ys = 400
           \<and> (\<forall>k<400. \<forall>\<theta> w z.
                  \<theta> = linspace 0 (2 * pi) 400 ! k \<longrightarrow>
                  w = Complex (x_center + R * cos \<theta>) (y_center + R * sin \<theta>) \<longrightarrow>
                  z = w + complex_of_real (R\<^sup>2) / w \<longrightarrow>
                  xs ! k = Finite (scale * Re z) \<and> ys ! k = Finite (scale * Im z))"
proof -
  obtain xs ys where p: "plot_joukowsky R x_center y_center scale = Inr (xs, ys)"
    and l: "length xs = 400" "length ys = 400"
    using plot_joukowsky_lengths by blast
  have pt: "xs ! k = Finite (scale * Re z) \<and> ys ! k = Finite (scale * Im z)"
    if k: "k < 400" and t: "\<theta> = linspace 0 (2 * pi) 400 ! k"
      and w: "w = Complex (x_center + R * cos \<theta>) (y_center + R * sin \<theta>)"
      and z: "z = w + complex_of_real (R\<^sup>2) / w" for k \<theta> w z
  proof -
    from t theta_nth [OF k] have th: "\<theta> = 2 * pi * real k / 399"
      by (rule trans)
    have w': "w = Complex (x_center + R * cos (2 * pi * real k / 399))
                           (y_center + R * sin (2 * pi * real k / 399))"
      using w by (simp only: th)
    from off [rule_format, OF k] have "w \<noteq> 0"
      unfolding w t .
    from plot_joukowsky_nth_nonzero [OF p k w' this] show ?thesis
      by (simp only: z)
  qed
  show ?thesis
  proof (intro exI conjI allI impI)
    show "plot_joukowsky R x_center y_center scale = Inr (xs, ys)" by (rule p)
    show "length xs = 400" "length ys = 400" by (rule l)+
  next
    fix k \<theta> w z
    assume "k < 400" "\<theta> = linspace 0 (2 * pi) 400 ! k"
      "w = Complex (x_center + R * cos \<theta>) (y_center + R * sin \<theta>)"
      "z = w + complex_of_real (R\<^sup>2) / w"
    from pt [OF this] show "xs ! k = Finite (scale * Re z)" "ys ! k = Finite (scale * Im z)"
      by (rule conjunct1, rule conjunct2)
  qed
qed

lemma theta_step:
  assumes "k < 399"
  shows "linspace 0 (2 * pi) 400 ! Suc k - linspace 0 (2 * pi) 400 ! k = 2 * pi / 399"
proof -
  from assms have "linspace 0 (2 * pi) 400 ! Suc k = 2 * pi * real (Suc k) / 399"
    and "linspace 0 (2 * pi) 400 ! k = 2 * pi * real k / 399"
    by (simp_all add: theta_nth)
  then show ?thesis
    by (simp add: field_simps)
qed

text \<open>
  C2. The sample angles are the 400 values of \<open>linspace 0 (2 * pi) 400\<close>: the first is
  0, the last is \<open>2 * pi\<close>, and consecutive ones differ by \<open>2 * pi / 399\<close>. For every
  input whose generating circle meets the origin at no sampled angle, \<open>plot_joukowsky\<close>
  returns 400 points, the k-th equal to \<open>(scale * Re z, scale * Im z)\<close> with
  \<open>z = w + R\<^sup>2 / w\<close> and \<open>w = (x_center + R * cos \<theta>) + i (y_center + R * sin \<theta>)\<close> at
  the k-th angle. For \<open>R = 0.85\<close>, \<open>x_center = -0.1\<close>, \<open>y_center = 0.23\<close>, \<open>scale = 1.0\<close> all
  400 points are finite, and the first and the last agree within \<open>10\<^sup>-\<^sup>9\<close> (over the reals
  they coincide).
\<close>

theorem airfoil_samples:
  "linspace 0 (2 * pi) 400 ! 0 = 0
   \<and> linspace 0 (2 * pi) 400 ! 399 = 2 * pi
   \<and> (\<forall>k<399. linspace 0 (2 * pi) 400 ! Suc k - linspace 0 (2 * pi) 400 ! k = 2 * pi / 399)
   \<and> ((\<forall>k<400. Complex (x_center + R * cos (linspace 0 (2 * pi) 400 ! k))
                        (y_center + R * sin (linspace 0 (2 * pi) 400 ! k)) \<noteq> 0) \<longrightarrow>
        (\<exists>xs ys. plot_joukowsky R x_center y_center scale = Inr (xs, ys)
           \<and> length xs = 400 \<and> length ys = 400
           \<and> (\<forall>k<400. \<forall>\<theta> w z.
                  \<theta> = linspace 0 (2 * pi) 400 ! k \<longrightarrow>
                  w = Complex (x_center + R * cos \<theta>) (y_center + R * sin \<theta>) \<longrightarrow>
                  z = w + complex_of_real (R\<^sup>2) / w \<longrightarrow>
                  xs ! k = Finite (scale * Re z) \<and> ys ! k = Finite (scale * Im z))))
   \<and> (\<exists>xs ys. plot_joukowsky 0.85 (- 0.1) 0.23 1.0 = Inr (xs, ys)
          \<and> length xs = 400 \<and> length ys = 400
          \<and> (\<forall>k<400. xs ! k \<noteq> NonFinite \<and> ys ! k \<noteq> NonFinite)
          \<and> (\<exists>x0 y0 x399 y399.
                xs ! 0 = Finite x0 \<and> ys ! 0 = Finite y0
                \<and> xs ! 399 = Finite x399 \<and> ys ! 399 = Finite y399
                \<and> \<bar>x0 - x399\<bar> \<le> 1 / 10 ^ 9 \<and> \<bar>y0 - y399\<bar> \<le> 1 / 10 ^ 9))"
proof (intro conjI impI allI)
  show "linspace 0 (2 * pi) 400 ! 0 = 0"
    by (simp add: theta_nth)
  show "linspace 0 (2 * pi) 400 ! 399 = 2 * pi"
    by (simp add: theta_nth)
  show "linspace 0 (2 * pi) 400 ! Suc k - linspace 0 (2 * pi) 400 ! k = 2 * pi / 399"
    if "k < 399" for k
    using that by (rule theta_step)
  show "\<exists>xs ys. plot_joukowsky R x_center y_center scale = Inr (xs, ys)
           \<and> length xs = 400 \<and> length ys = 400
           \<and> (\<forall>k<400. \<forall>\<theta> w z.
                  \<theta> = linspace 0 (2 * pi) 400 ! k \<longrightarrow>
                  w = Complex (x_center + R * cos \<theta>) (y_center + R * sin \<theta>) \<longrightarrow>
                  z = w + complex_of_real (R\<^sup>2) / w \<longrightarrow>
                  xs ! k = Finite (scale * Re z) \<and> ys ! k = Finite (scale * Im z))"
    if "\<forall>k<400. Complex (x_center + R * cos (linspace 0 (2 * pi) 400 ! k))
                        (y_center + R * sin (linspace 0 (2 * pi) 400 ! k)) \<noteq> 0"
    using that by (rule airfoil_general)
  show "\<exists>xs ys. plot_joukowsky 0.85 (- 0.1) 0.23 1.0 = Inr (xs, ys)
          \<and> length xs = 400 \<and> length ys = 400
          \<and> (\<forall>k<400. xs ! k \<noteq> NonFinite \<and> ys ! k \<noteq> NonFinite)
          \<and> (\<exists>x0 y0 x399 y399.
                xs ! 0 = Finite x0 \<and> ys ! 0 = Finite y0
                \<and> xs ! 399 = Finite x399 \<and> ys ! 399 = Finite y399
                \<and> \<bar>x0 - x399\<bar> \<le> 1 / 10 ^ 9 \<and> \<bar>y0 - y399\<bar> \<le> 1 / 10 ^ 9)"
    by (rule default_airfoil_closed)
qed

lemma default_samples_off_origin:
  "\<forall>k<400. Complex (- 0.1 + 0.85 * cos (linspace 0 (2 * pi) 400 ! k))
                    (0.23 + 0.85 * sin (linspace 0 (2 * pi) 400 ! k)) \<noteq> 0"
  using circle_off_origin [OF default_off_origin] by blast

text \<open>The default airfoil meets the hypothesis; its first point.\<close>

theorem airfoil_samples_witness:
  "\<exists>xs ys. plot_joukowsky 0.85 (- 0.1) 0.23 1.0 = Inr (xs, ys)
      \<and> xs ! 0 = Finite (1.0 * Re (Complex (- 0.1 + 0.85 * cos 0) (0.23 + 0.85 * sin 0)
                  + complex_of_real (0.85\<^sup>2) / Complex (- 0.1 + 0.85 * cos 0) (0.23 + 0.85 * sin 0)))"
proof -
  from airfoil_samples [of "- 0.1" "0.85" "0.23" "1.0"] default_samples_off_origin
  obtain xs ys where p: "plot_joukowsky 0.85 (- 0.1) 0.23 1.0 = Inr (xs, ys)"
    and n: "\<forall>k<400. \<forall>\<theta> w z.
                  \<theta> = linspace 0 (2 * pi) 400 ! k \<longrightarrow>
                  w = Complex (- 0.1 + 0.85 * cos \<theta>) (0.23 + 0.85 * sin \<theta>) \<longrightarrow>
                  z = w + complex_of_real (0.85\<^sup>2) / w \<longrightarrow>
                  xs ! k = Finite (1.0 * Re z) \<and> ys ! k = Finite (1.0 * Im z)"
    by blast
  have t0: "(0::real) = linspace 0 (2 * pi) 400 ! 0"
    by (simp add: theta_nth)
  have k0: "(0::nat) < 400" by simp
  from n [rule_format, OF k0 t0 refl refl] p show ?thesis
    by blast
qed





subsection \<open>The objectives of the fitted corners\<close>

lemma length_arc1: "length arc1_pts = 100"
  by (simp add: arc1_pts_def theta_outer_def length_linspace)

lemma length_arc3: "length arc3_pts = 100"
  by (simp add: arc3_pts_def theta_inner_def length_linspace)

lemma amin_map_eq_Min:
  "xs \<noteq> [] \<Longrightarrow> amin (map f xs) = Inr (Min (f ` set xs))"
  using amin_eq_Min [of "map f xs"] by simp

lemma clamped_parameter_optimal:
  fixes s t :: real
  assumes "0 \<le> t" "t \<le> 1"
  shows "0 \<le> (t - clip s 0 1) * (t + clip s 0 1 - 2 * s)"
proof -
  consider "s \<le> 0" | "0 < s" "s < 1" | "1 \<le> s"
    by linarith
  then show ?thesis
  proof cases
    case 1
    then have c: "clip s 0 1 = 0"
      by (simp add: clip_def)
    from 1 assms have "0 \<le> t * (t - 2 * s)"
      by (intro mult_nonneg_nonneg) simp_all
    with c show ?thesis by simp
  next
    case 2
    then have c: "clip s 0 1 = s"
      by (simp add: clip_def)
    have "(t - s) * (t + s - 2 * s) = (t - s)\<^sup>2"
      by (simp add: power2_eq_square algebra_simps)
    with c show ?thesis by simp
  next
    case 3
    then have c: "clip s 0 1 = 1"
      by (simp add: clip_def)
    from 3 assms have "0 \<le> (t - 1) * (t + 1 - 2 * s)"
      by (intro mult_nonpos_nonpos) simp_all
    with c show ?thesis by simp
  qed
qed

lemma clip_unit_interval: "0 \<le> clip s 0 1 \<and> clip s 0 1 \<le> 1"
  by (simp add: clip_def)

lemma scaled_offset:
  fixes L Q u :: real
  assumes "L \<noteq> 0"
  shows "L * (u - 2 * (Q / L)) = L * u - 2 * Q"
  using assms by (simp add: field_simps)

lemma squared_distance_along_segment:
  fixes qx qy dx dy t t0 :: real
  assumes "0 < dx\<^sup>2 + dy\<^sup>2"
  shows "((qx - t * dx)\<^sup>2 + (qy - t * dy)\<^sup>2) - ((qx - t0 * dx)\<^sup>2 + (qy - t0 * dy)\<^sup>2)
         = (dx\<^sup>2 + dy\<^sup>2) * ((t - t0) * (t + t0 - 2 * ((qx * dx + qy * dy) / (dx\<^sup>2 + dy\<^sup>2))))"
proof -
  from assms have nz: "dx\<^sup>2 + dy\<^sup>2 \<noteq> 0"
    by (metis less_irrefl)
  have "(dx\<^sup>2 + dy\<^sup>2) * ((t - t0) * (t + t0 - 2 * ((qx * dx + qy * dy) / (dx\<^sup>2 + dy\<^sup>2))))
        = (t - t0) * ((dx\<^sup>2 + dy\<^sup>2) * (t + t0 - 2 * ((qx * dx + qy * dy) / (dx\<^sup>2 + dy\<^sup>2))))"
    by (simp only: mult.left_commute)
  also have "\<dots> = (t - t0) * ((dx\<^sup>2 + dy\<^sup>2) * (t + t0) - 2 * (qx * dx + qy * dy))"
    by (simp only: scaled_offset [OF nz])
  also have "\<dots> = ((qx - t * dx)\<^sup>2 + (qy - t * dy)\<^sup>2) - ((qx - t0 * dx)\<^sup>2 + (qy - t0 * dy)\<^sup>2)"
    by (simp add: power2_eq_square algebra_simps)
  finally show ?thesis by simp
qed

lemma point_segment_distance_le:
  assumes "0 \<le> t" "t \<le> 1"
  shows "point_segment_distance p (a, b) \<le> norm2 (psub p (padd a (pscale t (psub b a))))"
proof -
  obtain px py ax ay bx "by" where p: "p = (px, py)" and a: "a = (ax, ay)" and b: "b = (bx, by)"
    by (cases p, cases a, cases b) blast
  define dx dy qx qy where "dx = bx - ax" and "dy = by - ay" and "qx = px - ax" and "qy = py - ay"
  have rhs: "norm2 (psub p (padd a (pscale t (psub b a)))) = sqrt ((qx - t * dx)\<^sup>2 + (qy - t * dy)\<^sup>2)"
    by (simp add: p a b dx_def dy_def qx_def qy_def algebra_simps)
  show ?thesis
  proof (cases "dx\<^sup>2 + dy\<^sup>2 = 0")
    case True
    then have z: "dx = 0" "dy = 0"
      by (simp_all add: sum_power2_eq_zero_iff)
    have "point_segment_distance p (a, b) = sqrt (qx\<^sup>2 + qy\<^sup>2)"
      using z by (simp add: point_segment_distance_def p a b dx_def dy_def qx_def qy_def Let_def)
    with rhs z show ?thesis by simp
  next
    case False
    then have pos: "0 < dx\<^sup>2 + dy\<^sup>2"
      by (metis less_eq_real_def sum_power2_ge_zero)
    define s where "s = (qx * dx + qy * dy) / (dx\<^sup>2 + dy\<^sup>2)"
    have lhs: "point_segment_distance p (a, b)
                 = sqrt ((qx - clip s 0 1 * dx)\<^sup>2 + (qy - clip s 0 1 * dy)\<^sup>2)"
      using False
      by (simp add: point_segment_distance_def p a b dx_def dy_def qx_def qy_def s_def Let_def
          power2_eq_square algebra_simps)
    have "0 \<le> (dx\<^sup>2 + dy\<^sup>2) * ((t - clip s 0 1) * (t + clip s 0 1 - 2 * s))"
      using pos clamped_parameter_optimal [OF assms, of s] by simp
    then have "(qx - clip s 0 1 * dx)\<^sup>2 + (qy - clip s 0 1 * dy)\<^sup>2
               \<le> (qx - t * dx)\<^sup>2 + (qy - t * dy)\<^sup>2"
      using squared_distance_along_segment [OF pos, of qx t qy "clip s 0 1"]
      unfolding s_def by linarith
    then show ?thesis
      unfolding lhs rhs by (rule real_sqrt_le_mono)
  qed
qed

lemma point_segment_distance_attained:
  "\<exists>t. 0 \<le> t \<and> t \<le> 1
       \<and> point_segment_distance p (a, b) = norm2 (psub p (padd a (pscale t (psub b a))))"
proof (cases "dot (psub b a) (psub b a) = 0")
  case True
  obtain px py ax ay bx "by" where p: "p = (px, py)" and a: "a = (ax, ay)" and b: "b = (bx, by)"
    by (cases p, cases a, cases b) blast
  have "point_segment_distance p (a, b) = norm2 (psub p (padd a (pscale 0 (psub b a))))"
    using True by (simp add: point_segment_distance_def Let_def p a b)
  then show ?thesis
    by (intro exI [of _ 0]) simp
next
  case False
  let ?t = "clip (dot (psub p a) (psub b a) / dot (psub b a) (psub b a)) 0 1"
  have "point_segment_distance p (a, b) = norm2 (psub p (padd a (pscale ?t (psub b a))))"
    using False by (simp add: point_segment_distance_def Let_def)
  with clip_unit_interval [of "dot (psub p a) (psub b a) / dot (psub b a) (psub b a)"]
  show ?thesis
    by (intro exI [of _ ?t]) simp
qed

lemma objective_inner_explicit:
  "objective_inner center =
     Inr ((point_segment_distance center seg2_pts - R_corner)\<^sup>2
          + (Min ((\<lambda>q. norm2 (psub q center)) ` set arc1_pts) - R_corner)\<^sup>2
          + (if norm2 center > r2 - R_corner
             then 10 * (norm2 center - (r2 - R_corner))\<^sup>2 else 0))"
proof -
  have "arc1_pts \<noteq> []"
    using length_arc1 by auto
  then show ?thesis
    by (simp add: objective_inner_def amin_map_eq_Min Let_def)
qed

lemma objective_outer_explicit:
  "objective_outer center =
     Inr ((point_segment_distance center seg2_pts - R_corner)\<^sup>2
          + (Min ((\<lambda>q. norm2 (psub q center)) ` set arc3_pts) - R_corner)\<^sup>2
          + (if norm2 center < r1 + R_corner
             then 1000 * (r1 + R_corner - norm2 center)\<^sup>2 else 0))"
proof -
  have "arc3_pts \<noteq> []"
    using length_arc3 by auto
  then show ?thesis
    by (simp add: objective_outer_def amin_map_eq_Min Let_def)
qed

text \<open>
  C3. At every candidate center each fit objective of the source equals the objective of
  the specification: the sum, over the two obstacles (the segment and the sampled arc),
  of the squared difference between the distance to the obstacle and the target radius,
  plus a weighted quadratic penalty. The penalty is there exactly when the center
  violates the side constraint (inner corner: \<open>\<parallel>center\<parallel> > r2 - R\<close>, weight 10; outer
  corner: \<open>\<parallel>center\<parallel> < r1 + R\<close>, weight 1000) and absent when it does not. The distance to
  the arc is the minimum over its samples; the distance to the segment is exact: no
  point of the segment is closer, and some point of it is at that distance.
\<close>

theorem objective_is_spec:
  "objective_inner center =
     Inr (spec_objective [Segment seg2_pts, SampledArc arc1_pts] R_corner 10
            (AtMost (r2 - R_corner)) center)
   \<and> objective_outer center =
     Inr (spec_objective [Segment seg2_pts, SampledArc arc3_pts] R_corner 1000
            (AtLeast (r1 + R_corner)) center)
   \<and> (norm2 center \<le> r2 - R_corner \<longrightarrow>
        objective_inner center =
          Inr ((point_segment_distance center seg2_pts - R_corner)\<^sup>2
               + (Min ((\<lambda>q. norm2 (psub q center)) ` set arc1_pts) - R_corner)\<^sup>2))
   \<and> (norm2 center > r2 - R_corner \<longrightarrow>
        objective_inner center =
          Inr ((point_segment_distance center seg2_pts - R_corner)\<^sup>2
               + (Min ((\<lambda>q. norm2 (psub q center)) ` set arc1_pts) - R_corner)\<^sup>2
               + 10 * (norm2 center - (r2 - R_corner))\<^sup>2))
   \<and> (norm2 center \<ge> r1 + R_corner \<longrightarrow>
        objective_outer center =
          Inr ((point_segment_distance center seg2_pts - R_corner)\<^sup>2
               + (Min ((\<lambda>q. norm2 (psub q center)) ` set arc3_pts) - R_corner)\<^sup>2))
   \<and> (norm2 center < r1 + R_corner \<longrightarrow>
        objective_outer center =
          Inr ((point_segment_distance center seg2_pts - R_corner)\<^sup>2
               + (Min ((\<lambda>q. norm2 (psub q center)) ` set arc3_pts) - R_corner)\<^sup>2
               + 1000 * (r1 + R_corner - norm2 center)\<^sup>2))
   \<and> (\<forall>t. 0 \<le> t \<and> t \<le> 1 \<longrightarrow>
          point_segment_distance center seg2_pts
            \<le> norm2 (psub center (padd p2 (pscale t (psub p1 p2)))))
   \<and> (\<exists>t. 0 \<le> t \<and> t \<le> 1
          \<and> point_segment_distance center seg2_pts
              = norm2 (psub center (padd p2 (pscale t (psub p1 p2)))))"
proof (intro conjI impI allI)
  show "objective_inner center =
     Inr (spec_objective [Segment seg2_pts, SampledArc arc1_pts] R_corner 10
            (AtMost (r2 - R_corner)) center)"
    by (simp add: objective_inner_explicit spec_objective_def)
  show "objective_outer center =
     Inr (spec_objective [Segment seg2_pts, SampledArc arc3_pts] R_corner 1000
            (AtLeast (r1 + R_corner)) center)"
    by (simp add: objective_outer_explicit spec_objective_def)
  show "objective_inner center =
          Inr ((point_segment_distance center seg2_pts - R_corner)\<^sup>2
               + (Min ((\<lambda>q. norm2 (psub q center)) ` set arc1_pts) - R_corner)\<^sup>2)"
    if "norm2 center \<le> r2 - R_corner"
    using that by (simp add: objective_inner_explicit)
  show "objective_inner center =
          Inr ((point_segment_distance center seg2_pts - R_corner)\<^sup>2
               + (Min ((\<lambda>q. norm2 (psub q center)) ` set arc1_pts) - R_corner)\<^sup>2
               + 10 * (norm2 center - (r2 - R_corner))\<^sup>2)"
    if "norm2 center > r2 - R_corner"
    using that by (simp add: objective_inner_explicit)
  show "objective_outer center =
          Inr ((point_segment_distance center seg2_pts - R_corner)\<^sup>2
               + (Min ((\<lambda>q. norm2 (psub q center)) ` set arc3_pts) - R_corner)\<^sup>2)"
    if "norm2 center \<ge> r1 + R_corner"
    using that by (simp add: objective_outer_explicit)
  show "objective_outer center =
          Inr ((point_segment_distance center seg2_pts - R_corner)\<^sup>2
               + (Min ((\<lambda>q. norm2 (psub q center)) ` set arc3_pts) - R_corner)\<^sup>2
               + 1000 * (r1 + R_corner - norm2 center)\<^sup>2)"
    if "norm2 center < r1 + R_corner"
    using that by (simp add: objective_outer_explicit)
  show "point_segment_distance center seg2_pts
            \<le> norm2 (psub center (padd p2 (pscale t (psub p1 p2))))"
    if "0 \<le> t \<and> t \<le> 1" for t
    using that point_segment_distance_le [of t center p2 p1] by (simp add: seg2_pts_def)
  show "\<exists>t. 0 \<le> t \<and> t \<le> 1
          \<and> point_segment_distance center seg2_pts
              = norm2 (psub center (padd p2 (pscale t (psub p1 p2))))"
    using point_segment_distance_attained [of center p2 p1] by (simp add: seg2_pts_def)
qed

lemma r_values: "r2 - R_corner = 23 / 20" "r1 + R_corner = 21 / 20"
  by (simp_all add: r1_def r2_def R_corner_def)

text \<open>
  The origin satisfies the inner constraint and violates the outer one; \<open>(2, 0)\<close> does the
  opposite; the midpoint of the segment is one of its points.
\<close>

theorem objective_is_spec_witness:
  "objective_inner (0, 0) =
          Inr ((point_segment_distance (0, 0) seg2_pts - R_corner)\<^sup>2
               + (Min ((\<lambda>q. norm2 (psub q (0, 0))) ` set arc1_pts) - R_corner)\<^sup>2)
   \<and> objective_inner (2, 0) =
          Inr ((point_segment_distance (2, 0) seg2_pts - R_corner)\<^sup>2
               + (Min ((\<lambda>q. norm2 (psub q (2, 0))) ` set arc1_pts) - R_corner)\<^sup>2
               + 10 * (norm2 (2, 0) - (r2 - R_corner))\<^sup>2)
   \<and> objective_outer (2, 0) =
          Inr ((point_segment_distance (2, 0) seg2_pts - R_corner)\<^sup>2
               + (Min ((\<lambda>q. norm2 (psub q (2, 0))) ` set arc3_pts) - R_corner)\<^sup>2)
   \<and> objective_outer (0, 0) =
          Inr ((point_segment_distance (0, 0) seg2_pts - R_corner)\<^sup>2
               + (Min ((\<lambda>q. norm2 (psub q (0, 0))) ` set arc3_pts) - R_corner)\<^sup>2
               + 1000 * (r1 + R_corner - norm2 (0, 0))\<^sup>2)
   \<and> point_segment_distance (0, 0) seg2_pts
            \<le> norm2 (psub (0, 0) (padd p2 (pscale (1 / 2) (psub p1 p2))))"
proof -
  have n0: "norm2 (0, 0) \<le> r2 - R_corner" "norm2 (0, 0) < r1 + R_corner"
    by (simp_all add: r_values)
  have n2: "norm2 (2, 0) > r2 - R_corner" "norm2 (2, 0) \<ge> r1 + R_corner"
    by (simp_all add: r_values)
  have t: "(0::real) \<le> 1 / 2 \<and> (1 / 2 :: real) \<le> 1"
    by simp
  from objective_is_spec [of "(0, 0)"] objective_is_spec [of "(2, 0)"] n0 n2 t
  show ?thesis
    by blast
qed

subsection \<open>The rounded joint\<close>

lemma lagrange_unit:
  fixes ux uy vx vy :: real
  assumes "ux\<^sup>2 + uy\<^sup>2 = 1" "vx\<^sup>2 + vy\<^sup>2 = 1"
  shows "(ux * vx + uy * vy)\<^sup>2 + (ux * vy - uy * vx)\<^sup>2 = 1"
proof -
  have "(ux * vx + uy * vy)\<^sup>2 + (ux * vy - uy * vx)\<^sup>2 = (ux\<^sup>2 + uy\<^sup>2) * (vx\<^sup>2 + vy\<^sup>2)"
    by (simp add: power2_eq_square algebra_simps)
  with assms show ?thesis by simp
qed

lemma unit_dot_strict:
  fixes ux uy vx vy :: real
  assumes "ux\<^sup>2 + uy\<^sup>2 = 1" "vx\<^sup>2 + vy\<^sup>2 = 1" "ux * vy - uy * vx \<noteq> 0"
  shows "- 1 < ux * vx + uy * vy" "ux * vx + uy * vy < 1"
proof -
  let ?g = "ux * vx + uy * vy"
  have "0 < (ux * vy - uy * vx)\<^sup>2"
    using assms(3) by simp
  with lagrange_unit [OF assms(1,2)] have "?g\<^sup>2 < 1"
    by linarith
  then have "\<bar>?g\<bar> < 1"
    by (simp add: abs_square_less_1)
  then show "- 1 < ?g" "?g < 1"
    by linarith+
qed

lemma sin_half_arccos:
  fixes g :: real
  assumes "- 1 \<le> g" "g \<le> 1"
  shows "sin (arccos g / 2) = sqrt ((1 - g) / 2)"
proof -
  let ?h = "arccos g / 2"
  have "cos (2 * ?h) = g"
    using assms by simp
  then have "g = 1 - 2 * (sin ?h)\<^sup>2"
    by (simp only: cos_double_sin)
  then have sq: "(sin ?h)\<^sup>2 = (1 - g) / 2"
    by simp
  have "0 \<le> arccos g" "arccos g \<le> pi"
    using assms by (simp_all add: arccos_lbound arccos_ubound)
  then have "0 \<le> ?h" "?h \<le> pi"
    using pi_ge_zero by linarith+
  then have "0 \<le> sin ?h"
    by (rule sin_ge_zero)
  then have "sin ?h = \<bar>sin ?h\<bar>"
    by simp
  also have "\<dots> = sqrt ((sin ?h)\<^sup>2)"
    by (rule real_sqrt_abs [symmetric])
  also have "\<dots> = sqrt ((1 - g) / 2)"
    by (simp only: sq)
  finally show ?thesis .
qed

lemma norm2_nonneg: "0 \<le> norm2 p"
  by (cases p) simp

lemma norm2_zero_iff: "norm2 p = 0 \<longleftrightarrow> p = (0, 0)"
  by (cases p) (simp add: sum_power2_eq_zero_iff)

lemma norm2_squared: "(norm2 (x, y))\<^sup>2 = x\<^sup>2 + y\<^sup>2"
  by simp

lemma unit_after_division:
  assumes "norm2 (x, y) \<noteq> 0"
  shows "(x / norm2 (x, y))\<^sup>2 + (y / norm2 (x, y))\<^sup>2 = 1"
proof -
  have "(x / norm2 (x, y))\<^sup>2 + (y / norm2 (x, y))\<^sup>2 = (x\<^sup>2 + y\<^sup>2) / (norm2 (x, y))\<^sup>2"
    by (simp only: power_divide add_divide_distrib)
  also have "\<dots> = (x\<^sup>2 + y\<^sup>2) / (x\<^sup>2 + y\<^sup>2)"
    by (simp only: norm2_squared)
  also have "\<dots> = 1"
  proof -
    from assms have "(x, y) \<noteq> (0, 0)"
      by (simp only: norm2_zero_iff not_False_eq_True)
    then have "x\<^sup>2 + y\<^sup>2 \<noteq> 0"
      by (simp add: sum_power2_eq_zero_iff)
    then show ?thesis
      by (rule divide_self)
  qed
  finally show ?thesis .
qed

lemma tangent_distance_unit:
  fixes ux uy vx vy r :: real
  assumes u: "ux\<^sup>2 + uy\<^sup>2 = 1" and v: "vx\<^sup>2 + vy\<^sup>2 = 1"
    and x: "ux * vy - uy * vx \<noteq> 0"
  defines "g \<equiv> ux * vx + uy * vy"
  defines "nw \<equiv> sqrt ((ux + vx)\<^sup>2 + (uy + vy)\<^sup>2)"
  defines "s \<equiv> sin (arccos g / 2)"
  shows "0 < nw" and "0 < s"
    and "\<bar>ux * (r / s * ((uy + vy) / nw)) - uy * (r / s * ((ux + vx) / nw))\<bar> = \<bar>r\<bar>"
    and "\<bar>vx * (r / s * ((uy + vy) / nw)) - vy * (r / s * ((ux + vx) / nw))\<bar> = \<bar>r\<bar>"
proof -
  have g: "- 1 < g" "g < 1"
    using unit_dot_strict [OF u v x] by (simp_all add: g_def)
  have nw2: "(ux + vx)\<^sup>2 + (uy + vy)\<^sup>2 = 2 + 2 * g"
  proof -
    have "(ux + vx)\<^sup>2 + (uy + vy)\<^sup>2 = (ux\<^sup>2 + uy\<^sup>2) + (vx\<^sup>2 + vy\<^sup>2) + 2 * g"
      by (simp add: g_def power2_eq_square algebra_simps)
    with u v show ?thesis by simp
  qed
  have nw: "nw = sqrt (2 + 2 * g)"
    by (simp only: nw_def nw2)
  from g show nwpos: "0 < nw"
    unfolding nw by simp
  have s: "s = sqrt ((1 - g) / 2)"
    unfolding s_def using g by (intro sin_half_arccos) simp_all
  from g show spos: "0 < s"
    unfolding s by simp
  let ?X = "ux * vy - uy * vx"
  have "s * nw = sqrt ((1 - g) / 2 * (2 + 2 * g))"
    by (simp only: s nw real_sqrt_mult)
  also have "(1 - g) / 2 * (2 + 2 * g) = 1 - g\<^sup>2"
    by (simp add: power2_eq_square field_simps)
  also have "1 - g\<^sup>2 = ?X\<^sup>2"
    using lagrange_unit [OF u v] by (simp add: g_def)
  also have "sqrt (?X\<^sup>2) = \<bar>?X\<bar>"
    by (rule real_sqrt_abs)
  finally have snw: "s * nw = \<bar>?X\<bar>" .
  have key: "\<bar>r / s * (Y / nw)\<bar> = \<bar>r\<bar>" if "\<bar>Y\<bar> = \<bar>?X\<bar>" for Y
  proof -
    have "\<bar>r / s * (Y / nw)\<bar> = \<bar>r\<bar> * \<bar>Y\<bar> / (s * nw)"
      using spos nwpos by (simp add: abs_mult)
    also have "\<dots> = \<bar>r\<bar> * (s * nw) / (s * nw)"
      by (simp only: that snw)
    also have "\<dots> = \<bar>r\<bar>"
      using spos nwpos by simp
    finally show ?thesis .
  qed
  have e1: "ux * (r / s * ((uy + vy) / nw)) - uy * (r / s * ((ux + vx) / nw)) = r / s * (?X / nw)"
    by (simp add: algebra_simps diff_divide_distrib add_divide_distrib)
  have e2: "vx * (r / s * ((uy + vy) / nw)) - vy * (r / s * ((ux + vx) / nw)) = r / s * ((- ?X) / nw)"
    by (simp add: algebra_simps diff_divide_distrib add_divide_distrib)
  show "\<bar>ux * (r / s * ((uy + vy) / nw)) - uy * (r / s * ((ux + vx) / nw))\<bar> = \<bar>r\<bar>"
    unfolding e1 by (rule key) simp
  show "\<bar>vx * (r / s * ((uy + vy) / nw)) - vy * (r / s * ((ux + vx) / nw))\<bar> = \<bar>r\<bar>"
    unfolding e2 by (rule key) simp
qed

lemma line_joint_center_unfold:
  "line_joint_center A B C radius =
     Inr (if norm2 (psub A B) = 0 \<or> norm2 (psub C B) = 0 then NonFinite
          else
            (let u = (fst (psub A B) / norm2 (psub A B), snd (psub A B) / norm2 (psub A B));
                 v = (fst (psub C B) / norm2 (psub C B), snd (psub C B) / norm2 (psub C B));
                 theta = arccos (clip (dot u v) (- 1) 1) / 2;
                 w = padd u v
             in if norm2 w = 0 \<or> sin theta = 0 then NonFinite
                else Finite (padd B (pscale (radius / sin theta)
                                       (fst w / norm2 w, snd w / norm2 w)))))"
  by (simp add: line_joint_center_def np_vdiv_def np_div_def Let_def)

lemma clip_id: "- 1 < g \<Longrightarrow> g < 1 \<Longrightarrow> clip g (- 1) 1 = g"
  by (simp add: clip_def)

lemma padd_psub_cancel: "psub (padd B q) B = q"
  by (cases B, cases q) simp

lemma joint_regular:
  fixes A B C :: point and radius :: real
  assumes x: "cross (psub A B) (psub C B) \<noteq> 0"
  defines "u \<equiv> (fst (psub A B) / norm2 (psub A B), snd (psub A B) / norm2 (psub A B))"
  defines "v \<equiv> (fst (psub C B) / norm2 (psub C B), snd (psub C B) / norm2 (psub C B))"
  defines "theta \<equiv> arccos (clip (dot u v) (- 1) 1) / 2"
  defines "w \<equiv> padd u v"
  defines "center \<equiv> padd B (pscale (radius / sin theta) (fst w / norm2 w, snd w / norm2 w))"
  shows "line_joint_center A B C radius = Inr (Finite center)"
    and "line_distance center B A = \<bar>radius\<bar>"
    and "line_distance center B C = \<bar>radius\<bar>"
    and "0 < sin theta"
proof -
  obtain ax ay where a: "psub A B = (ax, ay)"
    by (cases "psub A B") blast
  obtain cx cy where c: "psub C B = (cx, cy)"
    by (cases "psub C B") blast
  define na nc where "na = norm2 (ax, ay)" and "nc = norm2 (cx, cy)"
  from x have x': "ax * cy - ay * cx \<noteq> 0"
    by (simp add: a c cross_def)
  then have "(ax, ay) \<noteq> (0, 0)" "(cx, cy) \<noteq> (0, 0)"
    by auto
  then have nz: "na \<noteq> 0" "nc \<noteq> 0"
    by (simp_all only: na_def nc_def norm2_zero_iff not_False_eq_True)
  have pos: "0 < na" "0 < nc"
    using nz norm2_nonneg [of "(ax, ay)"] norm2_nonneg [of "(cx, cy)"]
    by (simp_all add: na_def nc_def less_le)
  define ux uy vx vy where "ux = ax / na" and "uy = ay / na" and "vx = cx / nc" and "vy = cy / nc"
  have u: "u = (ux, uy)" and v: "v = (vx, vy)"
    by (simp_all add: u_def v_def a c ux_def uy_def vx_def vy_def na_def nc_def)
  have nz': "norm2 (ax, ay) \<noteq> 0" "norm2 (cx, cy) \<noteq> 0"
    using nz unfolding na_def nc_def by this+
  have uu: "ux\<^sup>2 + uy\<^sup>2 = 1"
    using unit_after_division [OF nz'(1)] unfolding ux_def uy_def na_def .
  have vv: "vx\<^sup>2 + vy\<^sup>2 = 1"
    using unit_after_division [OF nz'(2)] unfolding vx_def vy_def nc_def .
  have "ux * vy - uy * vx = (ax * cy - ay * cx) / (na * nc)"
    by (simp add: ux_def uy_def vx_def vy_def diff_divide_distrib)
  with x' nz have xx: "ux * vy - uy * vx \<noteq> 0"
    by simp
  define g where "g = ux * vx + uy * vy"
  have gb: "- 1 < g" "g < 1"
    using unit_dot_strict [OF uu vv xx] by (simp_all add: g_def)
  have dotuv: "dot u v = g"
    by (simp add: u v g_def)
  have th: "theta = arccos g / 2"
    by (simp only: theta_def dotuv clip_id [OF gb])
  define s where "s = sin (arccos g / 2)"
  define nw where "nw = sqrt ((ux + vx)\<^sup>2 + (uy + vy)\<^sup>2)"
  have sth: "sin theta = s"
    by (simp only: th s_def)
  have w: "w = (ux + vx, uy + vy)"
    by (simp add: w_def u v)
  have nww: "norm2 w = nw"
    by (simp add: w nw_def)
  note td = tangent_distance_unit(1,2) [OF uu vv xx, folded g_def, folded nw_def s_def]
    tangent_distance_unit(3,4) [OF uu vv xx, of radius, folded g_def, folded nw_def s_def]
  from td(2) show "0 < sin theta"
    by (simp only: sth)
  have nww': "norm2 (ux + vx, uy + vy) = nw"
    by (simp add: nw_def)
  have cen: "center = padd B (pscale (radius / s) ((ux + vx) / nw, (uy + vy) / nw))"
    by (simp only: center_def sth w fst_conv snd_conv nww')
  have nzA: "norm2 (psub A B) \<noteq> 0" and nzC: "norm2 (psub C B) \<noteq> 0"
    using nz by (simp_all only: a c na_def nc_def not_False_eq_True)
  have nzw: "norm2 (padd u v) \<noteq> 0"
    using td(1) nww by (simp add: w_def)
  have nzs: "sin (arccos (clip (dot u v) (- 1) 1) / 2) \<noteq> 0"
    using td(2) sth by (simp add: theta_def)
  show "line_joint_center A B C radius = Inr (Finite center)"
    unfolding line_joint_center_unfold
    using nzA nzC nzw nzs
    by (simp add: Let_def center_def theta_def w_def u_def v_def)
  have rel: "psub center B = (radius / s * ((ux + vx) / nw), radius / s * ((uy + vy) / nw))"
    by (simp add: cen padd_psub_cancel)
  have aa: "ax = na * ux" "ay = na * uy" and cc: "cx = nc * vx" "cy = nc * vy"
    using nz by (simp_all add: ux_def uy_def vx_def vy_def)
  have "line_distance center B A
          = \<bar>ax * (radius / s * ((uy + vy) / nw)) - ay * (radius / s * ((ux + vx) / nw))\<bar> / na"
    by (simp add: line_distance_def cross_def a rel na_def)
  also have "ax * (radius / s * ((uy + vy) / nw)) - ay * (radius / s * ((ux + vx) / nw))
          = na * (ux * (radius / s * ((uy + vy) / nw)) - uy * (radius / s * ((ux + vx) / nw)))"
    by (simp only: aa right_diff_distrib mult.assoc)
  also have "\<bar>\<dots>\<bar> / na = \<bar>ux * (radius / s * ((uy + vy) / nw)) - uy * (radius / s * ((ux + vx) / nw))\<bar>"
    using pos(1) by (simp add: abs_mult)
  also have "\<dots> = \<bar>radius\<bar>"
    by (rule td(3))
  finally show "line_distance center B A = \<bar>radius\<bar>" .
  have "line_distance center B C
          = \<bar>cx * (radius / s * ((uy + vy) / nw)) - cy * (radius / s * ((ux + vx) / nw))\<bar> / nc"
    by (simp add: line_distance_def cross_def c rel nc_def)
  also have "cx * (radius / s * ((uy + vy) / nw)) - cy * (radius / s * ((ux + vx) / nw))
          = nc * (vx * (radius / s * ((uy + vy) / nw)) - vy * (radius / s * ((ux + vx) / nw)))"
    by (simp only: cc right_diff_distrib mult.assoc)
  also have "\<bar>\<dots>\<bar> / nc = \<bar>vx * (radius / s * ((uy + vy) / nw)) - vy * (radius / s * ((ux + vx) / nw))\<bar>"
    using pos(2) by (simp add: abs_mult)
  also have "\<dots> = \<bar>radius\<bar>"
    by (rule td(4))
  finally show "line_distance center B C = \<bar>radius\<bar>" .
qed

text \<open>
  \<open>line_distance\<close> is the distance to the supporting line: no point
  \<open>q1 + t * (q2 - q1)\<close> of the line is closer to \<open>p\<close>, and one of them is at that
  distance.
\<close>

lemma line_point_identity:
  fixes dx dy qx qy t :: real
  shows "(dx\<^sup>2 + dy\<^sup>2) * ((qx - t * dx)\<^sup>2 + (qy - t * dy)\<^sup>2)
         = (dx * qy - dy * qx)\<^sup>2 + ((dx\<^sup>2 + dy\<^sup>2) * t - (qx * dx + qy * dy))\<^sup>2"
  by (simp add: power2_eq_square algebra_simps)

lemma line_distance_coords:
  "line_distance (px, py) (ax, ay) (bx, by)
     = sqrt (((bx - ax) * (py - ay) - (by - ay) * (px - ax))\<^sup>2 / ((bx - ax)\<^sup>2 + (by - ay)\<^sup>2))"
  by (simp add: line_distance_def cross_def real_sqrt_divide)

lemma line_distance_le:
  assumes "q1 \<noteq> q2"
  shows "line_distance p q1 q2 \<le> norm2 (psub p (padd q1 (pscale t (psub q2 q1))))"
proof -
  obtain px py ax ay bx "by" where p: "p = (px, py)" and a: "q1 = (ax, ay)" and b: "q2 = (bx, by)"
    by (cases p, cases q1, cases q2) blast
  define dx dy qx qy where "dx = bx - ax" and "dy = by - ay" and "qx = px - ax" and "qy = py - ay"
  define L where "L = dx\<^sup>2 + dy\<^sup>2"
  from assms have "dx \<noteq> 0 \<or> dy \<noteq> 0"
    by (auto simp: a b dx_def dy_def)
  then have "L \<noteq> 0"
    by (auto simp: L_def sum_power2_eq_zero_iff)
  moreover have "0 \<le> L"
    by (simp add: L_def)
  ultimately have pos: "0 < L"
    by simp
  have rhs: "norm2 (psub p (padd q1 (pscale t (psub q2 q1))))
               = sqrt ((qx - t * dx)\<^sup>2 + (qy - t * dy)\<^sup>2)"
    by (simp add: p a b dx_def dy_def qx_def qy_def algebra_simps)
  have lhs: "line_distance p q1 q2 = sqrt ((dx * qy - dy * qx)\<^sup>2 / L)"
    by (simp only: p a b line_distance_coords dx_def dy_def qx_def qy_def L_def)
  have "(dx * qy - dy * qx)\<^sup>2 \<le> L * ((qx - t * dx)\<^sup>2 + (qy - t * dy)\<^sup>2)"
    unfolding L_def line_point_identity by simp
  then have "(dx * qy - dy * qx)\<^sup>2 / L \<le> (qx - t * dx)\<^sup>2 + (qy - t * dy)\<^sup>2"
    using pos by (simp add: field_simps)
  then show ?thesis
    unfolding lhs rhs by (rule real_sqrt_le_mono)
qed

lemma line_distance_attained:
  assumes "q1 \<noteq> q2"
  shows "\<exists>t. line_distance p q1 q2 = norm2 (psub p (padd q1 (pscale t (psub q2 q1))))"
proof -
  obtain px py ax ay bx "by" where p: "p = (px, py)" and a: "q1 = (ax, ay)" and b: "q2 = (bx, by)"
    by (cases p, cases q1, cases q2) blast
  define dx dy qx qy where "dx = bx - ax" and "dy = by - ay" and "qx = px - ax" and "qy = py - ay"
  define L where "L = dx\<^sup>2 + dy\<^sup>2"
  from assms have "dx \<noteq> 0 \<or> dy \<noteq> 0"
    by (auto simp: a b dx_def dy_def)
  then have nz: "L \<noteq> 0"
    by (auto simp: L_def sum_power2_eq_zero_iff)
  define t where "t = (qx * dx + qy * dy) / L"
  have rhs: "norm2 (psub p (padd q1 (pscale t (psub q2 q1))))
               = sqrt ((qx - t * dx)\<^sup>2 + (qy - t * dy)\<^sup>2)"
    by (simp add: p a b dx_def dy_def qx_def qy_def algebra_simps)
  have lhs: "line_distance p q1 q2 = sqrt ((dx * qy - dy * qx)\<^sup>2 / L)"
    by (simp only: p a b line_distance_coords dx_def dy_def qx_def qy_def L_def)
  have "L * t - (qx * dx + qy * dy) = 0"
    using nz by (simp add: t_def)
  then have "L * ((qx - t * dx)\<^sup>2 + (qy - t * dy)\<^sup>2) = (dx * qy - dy * qx)\<^sup>2"
    unfolding L_def line_point_identity by simp
  then have "(dx * qy - dy * qx)\<^sup>2 / L = (qx - t * dx)\<^sup>2 + (qy - t * dy)\<^sup>2"
    using nz by (simp add: field_simps)
  then have "line_distance p q1 q2 = norm2 (psub p (padd q1 (pscale t (psub q2 q1))))"
    unfolding lhs rhs by simp
  then show ?thesis ..
qed

text \<open>
  C5. For two segments \<open>B A\<close> and \<open>B C\<close> that are not collinear and a radius that is not
  negative, the joint's center is \<open>B + (radius / sin \<theta>) * bisector\<close>, with \<open>u\<close> and \<open>v\<close> the
  unit vectors from \<open>B\<close> to \<open>A\<close> and to \<open>C\<close>, \<open>\<theta> = arccos (clip (u \<cdot> v) (-1) 1) / 2\<close> and
  \<open>bisector\<close> the normalised \<open>u + v\<close>; and the distance from this center to the supporting
  line of each segment equals the radius (exactly over the reals, hence within \<open>10\<^sup>-\<^sup>6\<close>).
\<close>

theorem line_joint_tangent:
  assumes "cross (psub A B) (psub C B) \<noteq> 0" and "0 \<le> radius"
  shows "\<exists>u v theta bisector center.
      u = (fst (psub A B) / norm2 (psub A B), snd (psub A B) / norm2 (psub A B))
    \<and> v = (fst (psub C B) / norm2 (psub C B), snd (psub C B) / norm2 (psub C B))
    \<and> theta = arccos (clip (dot u v) (- 1) 1) / 2
    \<and> bisector = (fst (padd u v) / norm2 (padd u v), snd (padd u v) / norm2 (padd u v))
    \<and> center = padd B (pscale (radius / sin theta) bisector)
    \<and> line_joint_center A B C radius = Inr (Finite center)
    \<and> line_distance center B A = radius
    \<and> line_distance center B C = radius
    \<and> \<bar>line_distance center B A - radius\<bar> \<le> 1 / 10 ^ 6
    \<and> \<bar>line_distance center B C - radius\<bar> \<le> 1 / 10 ^ 6"
proof -
  note r = joint_regular(1,2,3) [OF assms(1), of radius]
  from assms(2) have ab: "\<bar>radius\<bar> = radius"
    by simp
  from r(2) ab have dA: "line_distance
      (padd B (pscale (radius / sin (arccos (clip (dot
          (fst (psub A B) / norm2 (psub A B), snd (psub A B) / norm2 (psub A B))
          (fst (psub C B) / norm2 (psub C B), snd (psub C B) / norm2 (psub C B))) (- 1) 1) / 2))
        (fst (padd (fst (psub A B) / norm2 (psub A B), snd (psub A B) / norm2 (psub A B))
                   (fst (psub C B) / norm2 (psub C B), snd (psub C B) / norm2 (psub C B)))
           / norm2 (padd (fst (psub A B) / norm2 (psub A B), snd (psub A B) / norm2 (psub A B))
                   (fst (psub C B) / norm2 (psub C B), snd (psub C B) / norm2 (psub C B))),
         snd (padd (fst (psub A B) / norm2 (psub A B), snd (psub A B) / norm2 (psub A B))
                   (fst (psub C B) / norm2 (psub C B), snd (psub C B) / norm2 (psub C B)))
           / norm2 (padd (fst (psub A B) / norm2 (psub A B), snd (psub A B) / norm2 (psub A B))
                   (fst (psub C B) / norm2 (psub C B), snd (psub C B) / norm2 (psub C B))))))
      B A = radius"
    by (rule trans)
  from r(3) ab have dC: "line_distance
      (padd B (pscale (radius / sin (arccos (clip (dot
          (fst (psub A B) / norm2 (psub A B), snd (psub A B) / norm2 (psub A B))
          (fst (psub C B) / norm2 (psub C B), snd (psub C B) / norm2 (psub C B))) (- 1) 1) / 2))
        (fst (padd (fst (psub A B) / norm2 (psub A B), snd (psub A B) / norm2 (psub A B))
                   (fst (psub C B) / norm2 (psub C B), snd (psub C B) / norm2 (psub C B)))
           / norm2 (padd (fst (psub A B) / norm2 (psub A B), snd (psub A B) / norm2 (psub A B))
                   (fst (psub C B) / norm2 (psub C B), snd (psub C B) / norm2 (psub C B))),
         snd (padd (fst (psub A B) / norm2 (psub A B), snd (psub A B) / norm2 (psub A B))
                   (fst (psub C B) / norm2 (psub C B), snd (psub C B) / norm2 (psub C B)))
           / norm2 (padd (fst (psub A B) / norm2 (psub A B), snd (psub A B) / norm2 (psub A B))
                   (fst (psub C B) / norm2 (psub C B), snd (psub C B) / norm2 (psub C B))))))
      B C = radius"
    by (rule trans)
  have tol: "\<bar>d - radius\<bar> \<le> 1 / 10 ^ 6" if "d = radius" for d
    using that by simp
  show ?thesis
    by (intro exI conjI) (rule refl r(1) dA dC tol [OF dA] tol [OF dC])+
qed

text \<open>The right angle at the origin between \<open>(1, 0)\<close> and \<open>(0, 1)\<close>, radius 1.\<close>

theorem line_joint_tangent_witness:
  "\<exists>center. line_joint_center (1, 0) (0, 0) (0, 1) 1 = Inr (Finite center)
      \<and> line_distance center (0, 0) (1, 0) = 1
      \<and> line_distance center (0, 0) (0, 1) = 1"
proof -
  have x: "cross (psub (1, 0) (0, 0)) (psub (0, 1) (0, 0)) \<noteq> 0"
    by (simp add: cross_def)
  have r: "(0::real) \<le> 1"
    by simp
  from line_joint_tangent [OF x r] show ?thesis
    by blast
qed


lemma norm2_two: "norm2 (2, 0) = 2"
  by simp




end
